theory Spec2Isabelle
  imports Complex_Main
begin

section \<open>The transportation model of transportation.py\<close>

text \<open>
  The script builds a Pyomo model of a transportation problem from three Python lists,
  hands it to an external LP solver and prints what the solver left in the model.
  Python numbers are modelled as \<^typ>\<open>real\<close> (exact arithmetic, no rounding), Python
  exceptions as values of the type \<open>error\<close>, Pyomo's indexed components as association
  lists in the order of their index sets, and Pyomo's expression objects as the
  datatype \<open>expr\<close>.
\<close>

subsection \<open>Python lists, exceptions, generators\<close>

datatype error = IndexError | KeyError | TypeError | ValueError | AttributeError | ApplicationError

text \<open>\<^verbatim>\<open>xs[i]\<close> for an index produced by \<^verbatim>\<open>range\<close> (never negative).\<close>

definition getitem :: "'a list \<Rightarrow> nat \<Rightarrow> error + 'a" where
  "getitem xs i = (if i < length xs then Inr (xs ! i) else Inl IndexError)"

text \<open>Evaluating a generator or an index loop item by item; the first exception ends it.\<close>

fun traverse :: "('a \<Rightarrow> error + 'b) \<Rightarrow> 'a list \<Rightarrow> error + 'b list" where
  "traverse g [] = Inr []"
| "traverse g (i # is) =
     (case g i of
        Inl e \<Rightarrow> Inl e
      | Inr y \<Rightarrow> (case traverse g is of Inl e \<Rightarrow> Inl e | Inr ys \<Rightarrow> Inr (y # ys)))"

subsection \<open>Pyomo expressions and components\<close>

datatype expr = Num real | VarX nat nat | Add expr expr | Mul real expr

datatype inequality = LessEq expr expr | GreaterEq expr expr

datatype sense = minimize | maximize

text \<open>
  What a constraint rule returns. Comparing a Pyomo expression gives a relational
  expression; comparing two plain Python numbers gives a Python bool.
\<close>

datatype rule_value = Relational inequality | Boolean bool

fun py_le :: "expr \<Rightarrow> expr \<Rightarrow> rule_value" where
  "py_le (Num p) (Num q) = Boolean (p \<le> q)"
| "py_le a b = Relational (LessEq a b)"

fun py_ge :: "expr \<Rightarrow> expr \<Rightarrow> rule_value" where
  "py_ge (Num p) (Num q) = Boolean (p \<ge> q)"
| "py_ge a b = Relational (GreaterEq a b)"

text \<open>
  Python's \<^verbatim>\<open>sum\<close> starts from 0 and adds the items from left to right; over no item
  at all it is the plain number 0.
\<close>

definition py_sum :: "expr list \<Rightarrow> expr" where
  "py_sum es = foldl Add (Num 0) es"

record model =
  facilities :: "nat list"
  warehouses :: "nat list"
  cost :: "((nat \<times> nat) \<times> real) list"
  capacity :: "(nat \<times> real) list"
  demand :: "(nat \<times> real) list"
  X :: "(nat \<times> nat) list"
  CapacityCons :: "(nat \<times> inequality) list"
  DemandCons :: "(nat \<times> inequality) list"
  OBJ :: "(expr \<times> sense) option"

text \<open>\<^verbatim>\<open>pe.ConcreteModel()\<close>: a model with no component attached yet.\<close>

definition ConcreteModel :: model where
  "ConcreteModel =
     \<lparr>facilities = [], warehouses = [], cost = [], capacity = [], demand = [], X = [],
      CapacityCons = [], DemandCons = [], OBJ = None\<rparr>"

text \<open>
  An indexed component (\<^verbatim>\<open>pe.Param\<close>, \<^verbatim>\<open>pe.Constraint\<close>) calls its rule once for
  every element of its index set, in order.
\<close>

definition indexed :: "('i \<Rightarrow> error + 'a) \<Rightarrow> 'i list \<Rightarrow> error + ('i \<times> 'a) list" where
  "indexed rule idx =
     traverse (\<lambda>i. case rule i of Inl e \<Rightarrow> Inl e | Inr v \<Rightarrow> Inr (i, v)) idx"

text \<open>
  \<^verbatim>\<open>pe.Constraint\<close> accepts a relational expression from its rule and raises
  ValueError when the rule returns a Python bool (a constraint with no variable).
\<close>

definition Constraint ::
  "('i \<Rightarrow> error + rule_value) \<Rightarrow> 'i list \<Rightarrow> error + ('i \<times> inequality) list" where
  "Constraint rule idx =
     indexed (\<lambda>i. case rule i of
                     Inl e \<Rightarrow> Inl e
                   | Inr (Boolean b) \<Rightarrow> Inl ValueError
                   | Inr (Relational c) \<Rightarrow> Inr c) idx"

text \<open>\<^verbatim>\<open>component[i]\<close> raises KeyError for an index the component does not have.\<close>

definition component_get :: "('i \<times> 'a) list \<Rightarrow> 'i \<Rightarrow> error + 'a" where
  "component_get items i = (case map_of items i of None \<Rightarrow> Inl KeyError | Some v \<Rightarrow> Inr v)"

definition X_get :: "model \<Rightarrow> nat \<times> nat \<Rightarrow> error + expr" where
  "X_get model i = (if i \<in> set (X model) then Inr (VarX (fst i) (snd i)) else Inl KeyError)"

subsection \<open>The rules of the script\<close>

definition cost_func :: "real list list \<Rightarrow> model \<Rightarrow> nat \<Rightarrow> nat \<Rightarrow> error + real" where
  "cost_func costs model f w =
     (case getitem costs f of Inl e \<Rightarrow> Inl e | Inr row \<Rightarrow> getitem row w)"

definition capacity_rule :: "model \<Rightarrow> nat \<Rightarrow> error + rule_value" where
  "capacity_rule model f =
     (case traverse (\<lambda>w. X_get model (f, w)) (warehouses model) of
        Inl e \<Rightarrow> Inl e
      | Inr terms \<Rightarrow>
          (case component_get (capacity model) f of
             Inl e \<Rightarrow> Inl e
           | Inr c \<Rightarrow> Inr (py_le (py_sum terms) (Num c))))"

definition demand_rule :: "model \<Rightarrow> nat \<Rightarrow> error + rule_value" where
  "demand_rule model w =
     (case traverse (\<lambda>f. X_get model (f, w)) (facilities model) of
        Inl e \<Rightarrow> Inl e
      | Inr terms \<Rightarrow>
          (case component_get (demand model) w of
             Inl e \<Rightarrow> Inl e
           | Inr d \<Rightarrow> Inr (py_ge (py_sum terms) (Num d))))"

definition obj_term :: "model \<Rightarrow> nat \<times> nat \<Rightarrow> error + expr" where
  "obj_term model i =
     (case component_get (cost model) i of
        Inl e \<Rightarrow> Inl e
      | Inr c \<Rightarrow> (case X_get model i of Inl e \<Rightarrow> Inl e | Inr v \<Rightarrow> Inr (Mul c v)))"

definition obj_rule :: "model \<Rightarrow> error + expr" where
  "obj_rule model =
     (case traverse (obj_term model) (List.product (facilities model) (warehouses model)) of
        Inl e \<Rightarrow> Inl e
      | Inr terms \<Rightarrow> Inr (py_sum terms))"

subsection \<open>Building the model (lines 15 to 97)\<close>

text \<open>
  The components are attached in the order of the script, and the first exception ends
  the build: IndexError from \<^verbatim>\<open>costs[f][w]\<close> at line 43, ValueError from
  \<^verbatim>\<open>pe.Constraint\<close> at line 71 (facilities but no warehouse) or at line 82 (warehouses
  but no facility). \<^verbatim>\<open>pe.Objective\<close> accepts the plain number 0 that the rule returns
  when there is no pair at all.
\<close>

definition build_model :: "real list \<Rightarrow> real list \<Rightarrow> real list list \<Rightarrow> error + model" where
  "build_model capacities demands costs =
     (let nF = length capacities;
          nW = length demands;
          m1 = ConcreteModel\<lparr>facilities := [0..<nF], warehouses := [0..<nW]\<rparr>
      in case indexed (\<lambda>(f, w). cost_func costs m1 f w)
                (List.product (facilities m1) (warehouses m1)) of
           Inl e \<Rightarrow> Inl e
         | Inr c \<Rightarrow>
      (case indexed (getitem capacities) (facilities m1) of
           Inl e \<Rightarrow> Inl e
         | Inr cap \<Rightarrow>
      (case indexed (getitem demands) (warehouses m1) of
           Inl e \<Rightarrow> Inl e
         | Inr dem \<Rightarrow>
      (let m2 = m1\<lparr>cost := c, capacity := cap, demand := dem,
                   X := List.product (facilities m1) (warehouses m1)\<rparr>
       in case Constraint (capacity_rule m2) (facilities m2) of
            Inl e \<Rightarrow> Inl e
          | Inr cc \<Rightarrow>
       (let m3 = m2\<lparr>CapacityCons := cc\<rparr>
        in case Constraint (demand_rule m3) (warehouses m3) of
             Inl e \<Rightarrow> Inl e
           | Inr dc \<Rightarrow>
        (let m4 = m3\<lparr>DemandCons := dc\<rparr>
         in case obj_rule m4 of
              Inl e \<Rightarrow> Inl e
            | Inr ob \<Rightarrow> Inr (m4\<lparr>OBJ := Some (ob, minimize)\<rparr>)))))))"

subsection \<open>What the model means\<close>

text \<open>The value of an expression when the variable \<open>X[f,w]\<close> has the value \<open>x (f, w)\<close>.\<close>

fun eval :: "(nat \<times> nat \<Rightarrow> real) \<Rightarrow> expr \<Rightarrow> real" where
  "eval x (Num c) = c"
| "eval x (VarX f w) = x (f, w)"
| "eval x (Add a b) = eval x a + eval x b"
| "eval x (Mul c a) = c * eval x a"

fun holds :: "(nat \<times> nat \<Rightarrow> real) \<Rightarrow> inequality \<Rightarrow> bool" where
  "holds x (LessEq a b) = (eval x a \<le> eval x b)"
| "holds x (GreaterEq a b) = (eval x a \<ge> eval x b)"

text \<open>
  A point of the built linear program: every variable in its domain NonNegativeReals,
  every capacity constraint and every demand constraint satisfied.
\<close>

definition satisfies :: "model \<Rightarrow> (nat \<times> nat \<Rightarrow> real) \<Rightarrow> bool" where
  "satisfies model x =
     (list_all (\<lambda>i. 0 \<le> x i) (X model) \<and>
      list_all (\<lambda>(f, c). holds x c) (CapacityCons model) \<and>
      list_all (\<lambda>(w, c). holds x c) (DemandCons model))"

text \<open>The objective of the model as a function of the point.\<close>

definition objective :: "model \<Rightarrow> (nat \<times> nat \<Rightarrow> real) \<Rightarrow> real" where
  "objective model x = (case OBJ model of None \<Rightarrow> 0 | Some (e, s) \<Rightarrow> eval x e)"

subsection \<open>The solve (lines 109 to 120)\<close>

text \<open>
  The solver is not code of this repository: it is a parameter of the script, a function
  from the built model to what the call leaves behind, or to the exception it raises.
  The record \<open>results\<close> holds the two fields of \<^verbatim>\<open>results.solver\<close> the script
  prints, the value of every \<^verbatim>\<open>model.X[f,w]\<close> after the call (\<open>None\<close> where the
  solver loaded none) and the content of the suffix \<^verbatim>\<open>model.dual\<close>.
\<close>

datatype SolverStatus = status_ok | status_warning | status_error | status_aborted | status_unknown

datatype TerminationCondition =
  optimal | infeasible | unbounded | infeasibleOrUnbounded | maxTimeLimit | maxIterations
  | other_condition

datatype constraint_ref = CapacityCons_at nat | DemandCons_at nat

record results =
  status :: SolverStatus
  termination_condition :: TerminationCondition
  X_value :: "nat \<times> nat \<Rightarrow> real option"
  dual :: "(constraint_ref \<times> real) list"

subsection \<open>Standard output\<close>

text \<open>
  The lines the script prints from line 116 on, one constructor for each \<^verbatim>\<open>print\<close>
  statement, holding the values printed. The displays of \<^verbatim>\<open>pprint\<close> and the solver's
  own log are left out.
\<close>

datatype line =
    Blank
  | Status_line SolverStatus
  | Termination_line TerminationCondition
  | Value_line "real option"
  | Transport_line int nat nat
  | Dual_line constraint_ref real
  | Objective_line real

text \<open>What a piece of the script printed, and the exception that ended it, if any.\<close>

type_synonym printed = "line list \<times> error option"

definition then_do :: "printed \<Rightarrow> printed \<Rightarrow> printed" where
  "then_do p q = (case snd p of Some e \<Rightarrow> p | None \<Rightarrow> (fst p @ fst q, snd q))"

text \<open>\<^verbatim>\<open>'%d' % v\<close> for a float: the integer part, rounded towards zero.\<close>

definition percent_d :: "real \<Rightarrow> int" where
  "percent_d v = (if 0 \<le> v then \<lfloor>v\<rfloor> else \<lceil>v\<rceil>)"

subsection \<open>Post-processing (lines 126 to 141)\<close>

definition X_value_get :: "model \<Rightarrow> results \<Rightarrow> nat \<times> nat \<Rightarrow> error + real option" where
  "X_value_get model r i = (if i \<in> set (X model) then Inr (X_value r i) else Inl KeyError)"

text \<open>Line 126: \<^verbatim>\<open>print(model.X[0,1].value)\<close>.\<close>

definition print_value :: "model \<Rightarrow> results \<Rightarrow> printed" where
  "print_value model r =
     (case X_value_get model r (0, 1) of
        Inl e \<Rightarrow> ([], Some e)
      | Inr v \<Rightarrow> ([Value_line v], None))"

text \<open>
  Lines 129 to 132, over the pairs \<open>(f, w)\<close> in the order of the two nested loops.
  \<^verbatim>\<open>None != 0\<close> is true in Python, and \<^verbatim>\<open>'%d' % None\<close> raises TypeError.
\<close>

fun print_transport :: "model \<Rightarrow> results \<Rightarrow> (nat \<times> nat) list \<Rightarrow> printed" where
  "print_transport model r [] = ([], None)"
| "print_transport model r ((f, w) # is) =
     (case X_value_get model r (f, w) of
        Inl e \<Rightarrow> ([], Some e)
      | Inr None \<Rightarrow> ([], Some TypeError)
      | Inr (Some q) \<Rightarrow>
          (if q \<noteq> 0
           then then_do ([Transport_line (percent_d q) f w], None) (print_transport model r is)
           else print_transport model r is))"

text \<open>Lines 136 to 138: only the constraints of \<open>CapacityCons\<close> are visited.\<close>

fun print_duals :: "model \<Rightarrow> results \<Rightarrow> nat list \<Rightarrow> printed" where
  "print_duals model r [] = ([], None)"
| "print_duals model r (f # fs) =
     (case component_get (CapacityCons model) f of
        Inl e \<Rightarrow> ([], Some e)
      | Inr c \<Rightarrow>
          (case component_get (dual r) (CapacityCons_at f) of
             Inl e \<Rightarrow> ([], Some e)
           | Inr d \<Rightarrow>
               then_do ([Dual_line (CapacityCons_at f) d], None) (print_duals model r fs)))"

text \<open>
  \<^verbatim>\<open>model.OBJ()\<close>: the value of the objective expression at the current values of
  the variables; Pyomo raises ValueError at a variable that has no value.
\<close>

fun expr_value :: "(nat \<times> nat \<Rightarrow> real option) \<Rightarrow> expr \<Rightarrow> error + real" where
  "expr_value v (Num c) = Inr c"
| "expr_value v (VarX f w) = (case v (f, w) of None \<Rightarrow> Inl ValueError | Some q \<Rightarrow> Inr q)"
| "expr_value v (Add a b) =
     (case expr_value v a of
        Inl e \<Rightarrow> Inl e
      | Inr p \<Rightarrow> (case expr_value v b of Inl e \<Rightarrow> Inl e | Inr q \<Rightarrow> Inr (p + q)))"
| "expr_value v (Mul c a) =
     (case expr_value v a of Inl e \<Rightarrow> Inl e | Inr q \<Rightarrow> Inr (c * q))"

definition OBJ_call :: "model \<Rightarrow> results \<Rightarrow> error + real" where
  "OBJ_call model r =
     (case OBJ model of
        None \<Rightarrow> Inl AttributeError
      | Some (e, s) \<Rightarrow> expr_value (X_value r) e)"

definition post_processing :: "model \<Rightarrow> results \<Rightarrow> printed" where
  "post_processing model r =
     then_do (print_value model r)
    (then_do ([Blank], None)
    (then_do (print_transport model r (List.product (facilities model) (warehouses model)))
    (then_do ([Blank], None)
    (then_do (print_duals model r (facilities model))
      (case OBJ_call model r of
         Inl e \<Rightarrow> ([], Some e)
       | Inr v \<Rightarrow> ([Blank, Objective_line v], None))))))"

subsection \<open>The whole script\<close>

record outcome =
  stdout :: "line list"
  solver_calls :: nat
  raised :: "error option"

definition script ::
  "(model \<Rightarrow> error + results) \<Rightarrow> real list \<Rightarrow> real list \<Rightarrow> real list list \<Rightarrow> outcome" where
  "script solve capacities demands costs =
     (case build_model capacities demands costs of
        Inl e \<Rightarrow> \<lparr>stdout = [], solver_calls = 0, raised = Some e\<rparr>
      | Inr model \<Rightarrow>
          (case solve model of
             Inl e \<Rightarrow> \<lparr>stdout = [], solver_calls = 1, raised = Some e\<rparr>
           | Inr r \<Rightarrow>
               (let p = then_do
                          ([Blank, Status_line (status r),
                            Termination_line (termination_condition r)], None)
                          (post_processing model r)
                in \<lparr>stdout = fst p, solver_calls = 1, raised = snd p\<rparr>)))"

subsection \<open>The hardcoded instance (lines 7 to 16)\<close>

definition capacities :: "real list" where
  "capacities = [2, 3, 3]"

definition demands :: "real list" where
  "demands = [4, 4]"

definition costs :: "real list list" where
  "costs = [[1, 2], [2, 2], [2, 3]]"

definition nF :: nat where
  "nF = length capacities"

definition nW :: nat where
  "nW = length demands"

subsection \<open>Solver reports used to exercise the script\<close>

text \<open>The flow the specification names as optimal for the hardcoded instance.\<close>

definition spec_flow :: "nat \<times> nat \<Rightarrow> real" where
  "spec_flow i =
     (if i = (0, 0) then 2 else if i = (1, 1) then 3 else if i = (2, 0) then 2
      else if i = (2, 1) then 1 else 0)"

text \<open>An exact solver on the hardcoded instance: the flow above and its dual prices.\<close>

definition optimal_results :: results where
  "optimal_results =
     \<lparr>status = status_ok, termination_condition = optimal,
      X_value = (\<lambda>i. Some (spec_flow i)),
      dual = [(CapacityCons_at 0, - 1), (CapacityCons_at 1, - 1), (CapacityCons_at 2, 0),
              (DemandCons_at 0, 2), (DemandCons_at 1, 3)]\<rparr>"



text \<open>The same reports as solvers, whatever model they are given.\<close>

definition exact_solver :: "model \<Rightarrow> error + results" where
  "exact_solver model = Inr optimal_results"



text \<open>Another point of the hardcoded program, of cost 17.\<close>

definition other_flow :: "nat \<times> nat \<Rightarrow> real" where
  "other_flow i =
     (if i = (0, 0) then 2 else if i = (1, 0) then 2 else if i = (1, 1) then 1
      else if i = (2, 1) then 3 else 0)"

subsection \<open>The specification's recomputation\<close>

text \<open>
  The cost as the specification recomputes it: the sum over all \<open>f\<close> and \<open>w\<close> of
  \<open>cost[f][w] * X[f,w]\<close>, from the cost matrix and the values alone.
\<close>

definition spec_objective ::
  "real list list \<Rightarrow> nat \<Rightarrow> nat \<Rightarrow> (nat \<times> nat \<Rightarrow> real) \<Rightarrow> real" where
  "spec_objective cs n k x = (\<Sum>f<n. \<Sum>w<k. cs ! f ! w * x (f, w))"

section \<open>Properties\<close>

subsection \<open>Generators, components and sums\<close>

lemma traverse_Inr:
  "(\<And>i. i \<in> set idx \<Longrightarrow> g i = Inr (h i)) \<Longrightarrow> traverse g idx = Inr (map h idx)"
  by (induction idx) simp_all

lemma traverse_Inl:
  "\<exists>i \<in> set idx. g i = Inl e \<Longrightarrow> \<forall>i \<in> set idx. \<forall>e'. g i = Inl e' \<longrightarrow> e' = e \<Longrightarrow>
     traverse g idx = Inl e"
proof (induction idx)
  case Nil
  then show ?case by simp
next
  case (Cons i idx)
  show ?case
  proof (cases "g i")
    case (Inl e')
    with Cons.prems(2) show ?thesis by simp
  next
    case (Inr y)
    with Cons.prems(1) have "\<exists>j \<in> set idx. g j = Inl e" by auto
    moreover from Cons.prems(2) have "\<forall>i \<in> set idx. \<forall>e'. g i = Inl e' \<longrightarrow> e' = e" by simp
    ultimately have "traverse g idx = Inl e" by (rule Cons.IH)
    with Inr show ?thesis by simp
  qed
qed

lemma indexed_Inr:
  "(\<And>i. i \<in> set idx \<Longrightarrow> rule i = Inr (h i)) \<Longrightarrow>
     indexed rule idx = Inr (map (\<lambda>i. (i, h i)) idx)"
  unfolding indexed_def by (rule traverse_Inr) simp

lemma indexed_Inl:
  assumes "\<exists>i \<in> set idx. rule i = Inl e"
    and "\<forall>i \<in> set idx. \<forall>e'. rule i = Inl e' \<longrightarrow> e' = e"
  shows "indexed rule idx = Inl e"
  unfolding indexed_def
proof (rule traverse_Inl)
  from assms(1) obtain i where "i \<in> set idx" "rule i = Inl e" by blast
  then show "\<exists>i\<in>set idx. (case rule i of Inl e \<Rightarrow> Inl e | Inr v \<Rightarrow> Inr (i, v)) = Inl e"
    by (intro bexI [of _ i]) simp_all
next
  from assms(2)
  show "\<forall>i\<in>set idx. \<forall>e'. (case rule i of Inl e \<Rightarrow> Inl e | Inr v \<Rightarrow> Inr (i, v)) = Inl e' \<longrightarrow> e' = e"
    by (auto split: sum.splits)
qed

lemma map_of_graph:
  "map_of (map (\<lambda>i. (i, h i)) idx) i = (if i \<in> set idx then Some (h i) else None)"
  by (induction idx) auto

lemma eval_foldl_Add:
  "eval x (foldl Add a es) = eval x a + sum_list (map (eval x) es)"
  by (induction es arbitrary: a) simp_all

lemma eval_py_sum: "eval x (py_sum es) = sum_list (map (eval x) es)"
  by (simp add: py_sum_def eval_foldl_Add)

lemma sum_list_upt: "sum_list (map g [0..<n]) = (\<Sum>i<n. g i)"
  by (simp add: interv_sum_list_conv_sum_set_nat atLeast0LessThan)

lemma sum_list_product:
  "sum_list (map g (List.product xs ys)) =
     sum_list (map (\<lambda>a. sum_list (map (\<lambda>b. g (a, b)) ys)) xs)"
  by (induction xs) (simp_all add: comp_def)

lemma getitem_Inr: "i < length xs \<Longrightarrow> getitem xs i = Inr (xs ! i)"
  by (simp add: getitem_def)

lemma cost_func_Inr:
  "f < length cs \<Longrightarrow> w < length (cs ! f) \<Longrightarrow> cost_func cs m f w = Inr (cs ! f ! w)"
  by (simp add: cost_func_def getitem_def)

lemma cost_func_Inl: "cost_func cs m f w = Inl e \<Longrightarrow> e = IndexError"
  by (auto simp: cost_func_def getitem_def split: if_splits sum.splits)

lemma cost_func_out:
  "\<not> (f < length cs \<and> w < length (cs ! f)) \<Longrightarrow> cost_func cs m f w = Inl IndexError"
  by (auto simp: cost_func_def getitem_def)

lemma X_terms:
  assumes "\<And>i. i \<in> set idx \<Longrightarrow> k i \<in> set (X m)"
  shows "traverse (\<lambda>i. X_get m (k i)) idx = Inr (map (\<lambda>i. VarX (fst (k i)) (snd (k i))) idx)"
  by (rule traverse_Inr) (simp add: X_get_def assms)

lemma component_get_graph:
  "i \<in> set idx \<Longrightarrow> component_get (map (\<lambda>i. (i, h i)) idx) i = Inr (h i)"
  by (simp add: component_get_def map_of_graph)

lemma foldl_Add_is_Add: "es \<noteq> [] \<Longrightarrow> \<exists>a b. foldl Add z es = Add a b"
proof (induction es arbitrary: z)
  case Nil
  then show ?case by simp
next
  case (Cons e es)
  then show ?case by (cases "es = []") simp_all
qed

lemma py_le_py_sum:
  "es \<noteq> [] \<Longrightarrow> py_le (py_sum es) (Num c) = Relational (LessEq (py_sum es) (Num c))"
  using foldl_Add_is_Add [of es "Num 0"] by (auto simp: py_sum_def)

lemma py_ge_py_sum:
  "es \<noteq> [] \<Longrightarrow> py_ge (py_sum es) (Num c) = Relational (GreaterEq (py_sum es) (Num c))"
  using foldl_Add_is_Add [of es "Num 0"] by (auto simp: py_sum_def)

lemma capacity_rule_Inr:
  assumes "X m = List.product F W" "warehouses m = W" "capacity m = map (\<lambda>f. (f, c f)) F"
    and "f \<in> set F" and "W \<noteq> []"
  shows "capacity_rule m f = Inr (Relational (LessEq (py_sum (map (VarX f) W)) (Num (c f))))"
proof -
  have "traverse (\<lambda>w. X_get m (f, w)) W = Inr (map (\<lambda>w. VarX (fst (f, w)) (snd (f, w))) W)"
    by (rule X_terms) (simp add: assms)
  then show ?thesis
    by (simp add: capacity_rule_def assms component_get_graph py_le_py_sum)
qed

lemma capacity_rule_Boolean:
  assumes "warehouses m = []" "capacity m = map (\<lambda>f. (f, c f)) F" and "f \<in> set F"
  shows "capacity_rule m f = Inr (Boolean (0 \<le> c f))"
  by (simp add: capacity_rule_def assms component_get_graph py_sum_def)

lemma demand_rule_Inr:
  assumes "X m = List.product F W" "facilities m = F" "demand m = map (\<lambda>w. (w, d w)) W"
    and "w \<in> set W" and "F \<noteq> []"
  shows "demand_rule m w =
           Inr (Relational (GreaterEq (py_sum (map (\<lambda>f. VarX f w) F)) (Num (d w))))"
proof -
  have "traverse (\<lambda>f. X_get m (f, w)) F = Inr (map (\<lambda>f. VarX (fst (f, w)) (snd (f, w))) F)"
    by (rule X_terms) (simp add: assms)
  then show ?thesis
    by (simp add: demand_rule_def assms component_get_graph py_ge_py_sum)
qed

lemma demand_rule_Boolean:
  assumes "facilities m = []" "demand m = map (\<lambda>w. (w, d w)) W" and "w \<in> set W"
  shows "demand_rule m w = Inr (Boolean (0 \<ge> d w))"
  by (simp add: demand_rule_def assms component_get_graph py_sum_def)

lemma Constraint_Inr:
  "(\<And>i. i \<in> set idx \<Longrightarrow> rule i = Inr (Relational (h i))) \<Longrightarrow>
     Constraint rule idx = Inr (map (\<lambda>i. (i, h i)) idx)"
  unfolding Constraint_def by (rule indexed_Inr) simp

lemma Constraint_Boolean:
  "rule i = Inr (Boolean b) \<Longrightarrow> Constraint rule (i # idx) = Inl ValueError"
  by (simp add: Constraint_def indexed_def)

lemma obj_rule_Inr:
  assumes "X m = List.product F W" "facilities m = F" "warehouses m = W"
    and "cost m = map (\<lambda>i. (i, c i)) (List.product F W)"
  shows "obj_rule m = Inr (py_sum (map (\<lambda>i. Mul (c i) (VarX (fst i) (snd i))) (List.product F W)))"
proof -
  have "traverse (obj_term m) (List.product F W) =
          Inr (map (\<lambda>i. Mul (c i) (VarX (fst i) (snd i))) (List.product F W))"
    by (rule traverse_Inr) (simp add: obj_term_def assms component_get_graph X_get_def)
  then show ?thesis
    by (simp add: obj_rule_def assms)
qed

lemma build_model_Inr:
  assumes "\<forall>f<length caps. \<forall>w<length dems. f < length cs \<and> w < length (cs ! f)"
    and "(caps = []) = (dems = [])"
  shows "build_model caps dems cs =
    Inr \<lparr>facilities = [0..<length caps], warehouses = [0..<length dems],
         cost = map (\<lambda>i. (i, cs ! fst i ! snd i))
                  (List.product [0..<length caps] [0..<length dems]),
         capacity = map (\<lambda>f. (f, caps ! f)) [0..<length caps],
         demand = map (\<lambda>w. (w, dems ! w)) [0..<length dems],
         X = List.product [0..<length caps] [0..<length dems],
         CapacityCons =
           map (\<lambda>f. (f, LessEq (py_sum (map (VarX f) [0..<length dems])) (Num (caps ! f))))
             [0..<length caps],
         DemandCons =
           map (\<lambda>w. (w, GreaterEq (py_sum (map (\<lambda>f. VarX f w) [0..<length caps]))
                          (Num (dems ! w))))
             [0..<length dems],
         OBJ = Some (py_sum (map (\<lambda>i. Mul (cs ! fst i ! snd i) (VarX (fst i) (snd i)))
                       (List.product [0..<length caps] [0..<length dems])), minimize)\<rparr>"
proof -
  let ?F = "[0..<length caps]" and ?W = "[0..<length dems]"
  have c: "indexed (\<lambda>(f, w). cost_func cs m f w) (List.product ?F ?W) =
             Inr (map (\<lambda>i. (i, cs ! fst i ! snd i)) (List.product ?F ?W))" for m
    by (rule indexed_Inr) (use assms(1) in \<open>auto simp: cost_func_Inr\<close>)
  have cap: "indexed (getitem caps) ?F = Inr (map (\<lambda>f. (f, caps ! f)) ?F)"
    by (rule indexed_Inr) (simp add: getitem_Inr)
  have dem: "indexed (getitem dems) ?W = Inr (map (\<lambda>w. (w, dems ! w)) ?W)"
    by (rule indexed_Inr) (simp add: getitem_Inr)
  have cc: "Constraint (capacity_rule m) ?F =
              Inr (map (\<lambda>f. (f, LessEq (py_sum (map (VarX f) ?W)) (Num (caps ! f)))) ?F)"
    if "X m = List.product ?F ?W" "warehouses m = ?W" "capacity m = map (\<lambda>f. (f, caps ! f)) ?F"
    for m
  proof (rule Constraint_Inr)
    fix f
    assume f: "f \<in> set ?F"
    with assms(2) have "?W \<noteq> []" by auto
    with that f show "capacity_rule m f =
        Inr (Relational (LessEq (py_sum (map (VarX f) ?W)) (Num (caps ! f))))"
      by (intro capacity_rule_Inr)
  qed
  have dc: "Constraint (demand_rule m) ?W =
              Inr (map (\<lambda>w. (w, GreaterEq (py_sum (map (\<lambda>f. VarX f w) ?F)) (Num (dems ! w)))) ?W)"
    if "X m = List.product ?F ?W" "facilities m = ?F" "demand m = map (\<lambda>w. (w, dems ! w)) ?W"
    for m
  proof (rule Constraint_Inr)
    fix w
    assume w: "w \<in> set ?W"
    with assms(2) have "?F \<noteq> []" by auto
    with that w show "demand_rule m w =
        Inr (Relational (GreaterEq (py_sum (map (\<lambda>f. VarX f w) ?F)) (Num (dems ! w))))"
      by (intro demand_rule_Inr)
  qed
  have ob: "obj_rule m =
              Inr (py_sum (map (\<lambda>i. Mul (cs ! fst i ! snd i) (VarX (fst i) (snd i)))
                     (List.product ?F ?W)))"
    if "X m = List.product ?F ?W" "facilities m = ?F" "warehouses m = ?W"
       "cost m = map (\<lambda>i. (i, cs ! fst i ! snd i)) (List.product ?F ?W)"
    for m
    by (rule obj_rule_Inr [OF that])
  show ?thesis
    by (simp add: build_model_def ConcreteModel_def Let_def c cap dem cc dc ob)
qed

lemma build_model_Inl:
  assumes "\<not> (\<forall>f<length caps. \<forall>w<length dems. f < length cs \<and> w < length (cs ! f))"
  shows "build_model caps dems cs = Inl IndexError"
proof -
  let ?F = "[0..<length caps]" and ?W = "[0..<length dems]"
  from assms obtain f w where fw: "f < length caps" "w < length dems"
      "\<not> (f < length cs \<and> w < length (cs ! f))"
    by blast
  have "indexed (\<lambda>(f, w). cost_func cs m f w) (List.product ?F ?W) = Inl IndexError" for m
  proof (rule indexed_Inl)
    from fw have "(f, w) \<in> set (List.product ?F ?W)" by simp
    moreover from fw(3) have "(case (f, w) of (f, w) \<Rightarrow> cost_func cs m f w) = Inl IndexError"
      by (simp add: cost_func_out)
    ultimately show "\<exists>i\<in>set (List.product ?F ?W). (case i of (f, w) \<Rightarrow> cost_func cs m f w) = Inl IndexError"
      by blast
  next
    show "\<forall>i\<in>set (List.product ?F ?W). \<forall>e'. (case i of (f, w) \<Rightarrow> cost_func cs m f w) = Inl e' \<longrightarrow> e' = IndexError"
      by (auto dest: cost_func_Inl)
  qed
  then show ?thesis
    by (simp add: build_model_def Let_def ConcreteModel_def)
qed

lemma product_no_second: "List.product xs [] = []"
  by (induction xs) simp_all

lemma build_model_ValueError:
  assumes "(caps = []) \<noteq> (dems = [])"
  shows "build_model caps dems cs = Inl ValueError"
proof (cases "dems = []")
  case True
  with assms obtain c caps' where caps: "caps = c # caps'" by (cases caps) auto
  have cap: "indexed (getitem caps) [0..<length caps] =
      Inr (map (\<lambda>f. (f, caps ! f)) [0..<length caps])"
    by (rule indexed_Inr) (simp add: getitem_Inr)
  have up: "[0..<length caps] = 0 # [Suc 0..<length caps]"
    by (rule upt_conv_Cons) (simp add: caps)
  have "Constraint (capacity_rule m) [0..<length caps] = Inl ValueError"
    if "warehouses m = []" "capacity m = map (\<lambda>f. (f, caps ! f)) [0..<length caps]" for m
  proof -
    have "capacity_rule m 0 = Inr (Boolean (0 \<le> caps ! 0))"
      by (rule capacity_rule_Boolean [where F = "[0..<length caps]"])
         (simp_all add: that caps)
    then show ?thesis
      unfolding up by (rule Constraint_Boolean)
  qed
  with True cap show ?thesis
    by (simp add: build_model_def ConcreteModel_def Let_def indexed_def [of _ "[]"]
        product_no_second)
next
  case False
  with assms have caps: "caps = []" by simp
  from False obtain d dems' where dems: "dems = d # dems'" by (cases dems) auto
  have dem: "indexed (getitem dems) [0..<length dems] =
      Inr (map (\<lambda>w. (w, dems ! w)) [0..<length dems])"
    by (rule indexed_Inr) (simp add: getitem_Inr)
  have up: "[0..<length dems] = 0 # [Suc 0..<length dems]"
    by (rule upt_conv_Cons) (simp add: dems)
  have "Constraint (demand_rule m) [0..<length dems] = Inl ValueError"
    if "facilities m = []" "demand m = map (\<lambda>w. (w, dems ! w)) [0..<length dems]" for m
  proof -
    have "demand_rule m 0 = Inr (Boolean (0 \<ge> dems ! 0))"
      by (rule demand_rule_Boolean [where W = "[0..<length dems]"])
         (simp_all add: that dems)
    then show ?thesis
      unfolding up by (rule Constraint_Boolean)
  qed
  with caps dem show ?thesis
    by (simp add: build_model_def ConcreteModel_def Let_def indexed_def [of _ "[]"]
        Constraint_def [of _ "[]"])
qed

lemma build_model_fields:
  assumes "build_model caps dems cs = Inr m"
  shows "facilities m = [0..<length caps]"
    and "warehouses m = [0..<length dems]"
    and "X m = List.product [0..<length caps] [0..<length dems]"
    and "CapacityCons m =
           map (\<lambda>f. (f, LessEq (py_sum (map (VarX f) [0..<length dems])) (Num (caps ! f))))
             [0..<length caps]"
    and "DemandCons m =
           map (\<lambda>w. (w, GreaterEq (py_sum (map (\<lambda>f. VarX f w) [0..<length caps]))
                          (Num (dems ! w))))
             [0..<length dems]"
    and "OBJ m = Some (py_sum (map (\<lambda>i. Mul (cs ! fst i ! snd i) (VarX (fst i) (snd i)))
                       (List.product [0..<length caps] [0..<length dems])), minimize)"
proof -
  have "\<forall>f<length caps. \<forall>w<length dems. f < length cs \<and> w < length (cs ! f)"
  proof (rule ccontr)
    assume "\<not> ?thesis"
    then have "build_model caps dems cs = Inl IndexError" by (rule build_model_Inl)
    with assms show False by simp
  qed
  moreover have "(caps = []) = (dems = [])"
  proof (rule ccontr)
    assume "\<not> ?thesis"
    then have "build_model caps dems cs = Inl ValueError" by (rule build_model_ValueError)
    with assms show False by simp
  qed
  ultimately have "build_model caps dems cs =
    Inr \<lparr>facilities = [0..<length caps], warehouses = [0..<length dems],
         cost = map (\<lambda>i. (i, cs ! fst i ! snd i))
                  (List.product [0..<length caps] [0..<length dems]),
         capacity = map (\<lambda>f. (f, caps ! f)) [0..<length caps],
         demand = map (\<lambda>w. (w, dems ! w)) [0..<length dems],
         X = List.product [0..<length caps] [0..<length dems],
         CapacityCons =
           map (\<lambda>f. (f, LessEq (py_sum (map (VarX f) [0..<length dems])) (Num (caps ! f))))
             [0..<length caps],
         DemandCons =
           map (\<lambda>w. (w, GreaterEq (py_sum (map (\<lambda>f. VarX f w) [0..<length caps]))
                          (Num (dems ! w))))
             [0..<length dems],
         OBJ = Some (py_sum (map (\<lambda>i. Mul (cs ! fst i ! snd i) (VarX (fst i) (snd i)))
                       (List.product [0..<length caps] [0..<length dems])), minimize)\<rparr>"
    by (rule build_model_Inr)
  with assms
  have m: "m = \<lparr>facilities = [0..<length caps], warehouses = [0..<length dems],
         cost = map (\<lambda>i. (i, cs ! fst i ! snd i))
                  (List.product [0..<length caps] [0..<length dems]),
         capacity = map (\<lambda>f. (f, caps ! f)) [0..<length caps],
         demand = map (\<lambda>w. (w, dems ! w)) [0..<length dems],
         X = List.product [0..<length caps] [0..<length dems],
         CapacityCons =
           map (\<lambda>f. (f, LessEq (py_sum (map (VarX f) [0..<length dems])) (Num (caps ! f))))
             [0..<length caps],
         DemandCons =
           map (\<lambda>w. (w, GreaterEq (py_sum (map (\<lambda>f. VarX f w) [0..<length caps]))
                          (Num (dems ! w))))
             [0..<length dems],
         OBJ = Some (py_sum (map (\<lambda>i. Mul (cs ! fst i ! snd i) (VarX (fst i) (snd i)))
                       (List.product [0..<length caps] [0..<length dems])), minimize)\<rparr>"
    by simp
  show "facilities m = [0..<length caps]" by (simp add: m)
  show "warehouses m = [0..<length dems]" by (simp add: m)
  show "X m = List.product [0..<length caps] [0..<length dems]" by (simp add: m)
  show "CapacityCons m =
           map (\<lambda>f. (f, LessEq (py_sum (map (VarX f) [0..<length dems])) (Num (caps ! f))))
             [0..<length caps]" by (simp add: m)
  show "DemandCons m =
           map (\<lambda>w. (w, GreaterEq (py_sum (map (\<lambda>f. VarX f w) [0..<length caps]))
                          (Num (dems ! w))))
             [0..<length dems]" by (simp add: m)
  show "OBJ m = Some (py_sum (map (\<lambda>i. Mul (cs ! fst i ! snd i) (VarX (fst i) (snd i)))
                       (List.product [0..<length caps] [0..<length dems])), minimize)"
    by (simp add: m)
qed

lemma holds_capacity:
  "holds x (LessEq (py_sum (map (VarX f) [0..<k])) (Num c)) = ((\<Sum>w<k. x (f, w)) \<le> c)"
  by (simp add: eval_py_sum comp_def sum_list_upt)

lemma holds_demand:
  "holds x (GreaterEq (py_sum (map (\<lambda>f. VarX f w) [0..<n])) (Num d)) = (d \<le> (\<Sum>f<n. x (f, w)))"
  by (simp add: eval_py_sum comp_def sum_list_upt)

lemma eval_objective:
  "eval x (py_sum (map (\<lambda>i. Mul (cs ! fst i ! snd i) (VarX (fst i) (snd i)))
             (List.product [0..<n] [0..<k]))) = (\<Sum>f<n. \<Sum>w<k. cs ! f ! w * x (f, w))"
  by (simp add: eval_py_sum comp_def sum_list_product sum_list_upt)

lemma satisfies_iff:
  assumes "build_model caps dems cs = Inr m"
  shows "satisfies m x =
           ((\<forall>f<length caps. \<forall>w<length dems. 0 \<le> x (f, w)) \<and>
            (\<forall>f<length caps. (\<Sum>w<length dems. x (f, w)) \<le> caps ! f) \<and>
            (\<forall>w<length dems. dems ! w \<le> (\<Sum>f<length caps. x (f, w))))"
proof -
  have 1: "list_all (\<lambda>i. 0 \<le> x i) (X m) = (\<forall>f<length caps. \<forall>w<length dems. 0 \<le> x (f, w))"
    unfolding build_model_fields(3) [OF assms] list_all_iff by auto
  have 2: "list_all (\<lambda>(f, c). holds x c) (CapacityCons m) =
             (\<forall>f<length caps. (\<Sum>w<length dems. x (f, w)) \<le> caps ! f)"
    unfolding build_model_fields(4) [OF assms] list_all_iff
    by (simp add: holds_capacity del: holds.simps) (simp add: Ball_def)
  have 3: "list_all (\<lambda>(w, c). holds x c) (DemandCons m) =
             (\<forall>w<length dems. dems ! w \<le> (\<Sum>f<length caps. x (f, w)))"
    unfolding build_model_fields(5) [OF assms] list_all_iff
    by (simp add: holds_demand del: holds.simps) (simp add: Ball_def)
  show ?thesis
    unfolding satisfies_def 1 2 3 ..
qed

subsection \<open>The objective call, the print loops and the run\<close>

lemma expr_value_foldl:
  "expr_value v a = Inr p \<Longrightarrow> \<forall>e\<in>set es. expr_value v e = Inr (eval x e) \<Longrightarrow>
     expr_value v (foldl Add a es) = Inr (p + sum_list (map (eval x) es))"
  by (induction es arbitrary: a p) (simp_all add: add.assoc)

lemma expr_value_py_sum:
  "\<forall>e\<in>set es. expr_value v e = Inr (eval x e) \<Longrightarrow>
     expr_value v (py_sum es) = Inr (eval x (py_sum es))"
  by (simp add: py_sum_def expr_value_foldl [where x = x] eval_foldl_Add)

lemma then_do_None [simp]: "then_do (ls, None) q = (ls @ fst q, snd q)"
  by (simp add: then_do_def)

lemma then_do_Some [simp]: "then_do (ls, Some e) q = (ls, Some e)"
  by (simp add: then_do_def)

lemma snd_then_do: "snd (then_do p q) = None \<longleftrightarrow> snd p = None \<and> snd q = None"
  by (cases p; cases "snd p") (auto simp: then_do_def)

lemma fst_then_do: "snd p = None \<Longrightarrow> fst (then_do p q) = fst p @ fst q"
  by (simp add: then_do_def)

lemma set_then_do: "set (fst (then_do p q)) \<subseteq> set (fst p) \<union> set (fst q)"
  by (auto simp: then_do_def split: option.splits)

lemma script_solved:
  assumes "build_model caps dems cs = Inr m" and "solve m = Inr r"
  shows "script solve caps dems cs =
           \<lparr>stdout = [Blank, Status_line (status r), Termination_line (termination_condition r)]
                     @ fst (post_processing m r),
            solver_calls = 1, raised = snd (post_processing m r)\<rparr>"
  by (simp add: script_def assms Let_def)

lemma OBJ_call_value:
  assumes "build_model caps dems cs = Inr m"
    and "\<forall>i\<in>set (X m). X_value r i = Some (x i)"
  shows "OBJ_call m r = Inr (spec_objective cs (length caps) (length dems) x)"
proof -
  let ?idx = "List.product [0..<length caps] [0..<length dems]"
  let ?terms = "map (\<lambda>i. Mul (cs ! fst i ! snd i) (VarX (fst i) (snd i))) ?idx"
  from assms(2) have "\<forall>i\<in>set ?idx. X_value r i = Some (x i)"
    by (simp only: build_model_fields(3) [OF assms(1)])
  then have "\<forall>e\<in>set ?terms. expr_value (X_value r) e = Inr (eval x e)"
    by auto
  then have "expr_value (X_value r) (py_sum ?terms) = Inr (eval x (py_sum ?terms))"
    by (rule expr_value_py_sum)
  then show ?thesis
    by (simp add: OBJ_call_def build_model_fields(6) [OF assms(1)] eval_objective
        spec_objective_def)
qed

lemma print_transport_loaded:
  assumes "set idx \<subseteq> set (X m)" and "\<forall>i\<in>set idx. X_value r i = Some (x i)"
  shows "print_transport m r idx =
           (map (\<lambda>i. Transport_line (percent_d (x i)) (fst i) (snd i))
              (filter (\<lambda>i. x i \<noteq> 0) idx), None)"
  using assms
proof (induction idx)
  case Nil
  then show ?case by simp
next
  case (Cons i idx)
  obtain f w where i: "i = (f, w)" by (cases i)
  from Cons.prems have "print_transport m r idx =
      (map (\<lambda>i. Transport_line (percent_d (x i)) (fst i) (snd i))
         (filter (\<lambda>i. x i \<noteq> 0) idx), None)"
    by (intro Cons.IH) simp_all
  with Cons.prems show ?case
    by (simp add: i X_value_get_def)
qed






lemma print_duals_lines:
  "l \<in> set (fst (print_duals m r fs)) \<Longrightarrow>
     \<exists>f\<in>set fs. \<exists>d. l = Dual_line (CapacityCons_at f) d \<and>
       map_of (dual r) (CapacityCons_at f) = Some d"
proof (induction fs)
  case Nil
  then show ?case by simp
next
  case (Cons f fs)
  show ?case
  proof (cases "component_get (CapacityCons m) f")
    case (Inl e)
    with Cons.prems show ?thesis by simp
  next
    case c: (Inr c)
    show ?thesis
    proof (cases "map_of (dual r) (CapacityCons_at f)")
      case None
      with c Cons.prems show ?thesis by (simp add: component_get_def)
    next
      case (Some d)
      with c Cons.prems have "l = Dual_line (CapacityCons_at f) d \<or> l \<in> set (fst (print_duals m r fs))"
        by (simp add: component_get_def)
      with Some Cons.IH show ?thesis by auto
    qed
  qed
qed

lemma print_duals_done:
  "snd (print_duals m r fs) = None \<Longrightarrow> f \<in> set fs \<Longrightarrow>
     \<exists>d. map_of (dual r) (CapacityCons_at f) = Some d \<and>
       Dual_line (CapacityCons_at f) d \<in> set (fst (print_duals m r fs))"
proof (induction fs)
  case Nil
  then show ?case by simp
next
  case (Cons g fs)
  from Cons.prems(1) obtain c where c: "component_get (CapacityCons m) g = Inr c"
    by (cases "component_get (CapacityCons m) g") simp_all
  from Cons.prems(1) c obtain d where d: "map_of (dual r) (CapacityCons_at g) = Some d"
    by (cases "map_of (dual r) (CapacityCons_at g)") (simp_all add: component_get_def)
  from Cons.prems(1) c d have rest: "snd (print_duals m r fs) = None"
    by (simp add: component_get_def)
  show ?case
  proof (cases "f = g")
    case True
    with c d show ?thesis by (simp add: component_get_def)
  next
    case False
    with Cons.prems(2) have "f \<in> set fs" by simp
    with Cons.IH rest obtain d' where "map_of (dual r) (CapacityCons_at f) = Some d'"
      "Dual_line (CapacityCons_at f) d' \<in> set (fst (print_duals m r fs))" by blast
    with c d show ?thesis by (simp add: component_get_def)
  qed
qed

lemma print_transport_lines:
  "l \<in> set (fst (print_transport m r idx)) \<Longrightarrow> \<exists>q f w. l = Transport_line q f w"
proof (induction idx)
  case Nil
  then show ?case by simp
next
  case (Cons i idx)
  obtain f w where i: "i = (f, w)" by (cases i)
  from Cons.prems Cons.IH show ?case
    by (auto simp: i X_value_get_def split: if_splits option.splits)
qed

lemma post_processing_loaded:
  assumes "build_model caps dems cs = Inr m"
    and "0 < length caps" and "1 < length dems"
    and "\<forall>i\<in>set (X m). X_value r i = Some (x i)"
  shows "post_processing m r =
    then_do
      (Value_line (Some (x (0, 1))) # Blank #
       map (\<lambda>i. Transport_line (percent_d (x i)) (fst i) (snd i))
         (filter (\<lambda>i. x i \<noteq> 0) (List.product [0..<length caps] [0..<length dems])) @
       [Blank], None)
      (then_do (print_duals m r [0..<length caps])
         ([Blank, Objective_line (spec_objective cs (length caps) (length dems) x)], None))"
proof -
  note f = build_model_fields [OF assms(1)]
  from assms(2,3) have "(0, 1) \<in> set (X m)" by (simp add: f)
  with assms(4) have pv: "print_value m r = ([Value_line (Some (x (0, 1)))], None)"
    by (simp add: print_value_def X_value_get_def)
  have pt: "print_transport m r (List.product [0..<length caps] [0..<length dems]) =
      (map (\<lambda>i. Transport_line (percent_d (x i)) (fst i) (snd i))
         (filter (\<lambda>i. x i \<noteq> 0) (List.product [0..<length caps] [0..<length dems])), None)"
    by (rule print_transport_loaded) (use assms(4) in \<open>simp_all add: f\<close>)
  show ?thesis
    by (simp add: post_processing_def f(1,2) pv pt OBJ_call_value [OF assms(1,4)])
qed

lemma post_processing_complete:
  assumes "snd (post_processing m r) = None"
  shows "\<exists>v ov. fst (post_processing m r) =
           [Value_line v, Blank]
           @ fst (print_transport m r (List.product (facilities m) (warehouses m)))
           @ [Blank] @ fst (print_duals m r (facilities m)) @ [Blank, Objective_line ov]"
    and "snd (print_duals m r (facilities m)) = None"
proof -
  let ?O = "case OBJ_call m r of Inl e \<Rightarrow> ([], Some e)
            | Inr v \<Rightarrow> ([Blank, Objective_line v], None)"
  from assms have pv: "snd (print_value m r) = None"
    and pt: "snd (print_transport m r (List.product (facilities m) (warehouses m))) = None"
    and pd: "snd (print_duals m r (facilities m)) = None"
    and po: "snd ?O = None"
    by (simp_all add: post_processing_def snd_then_do)
  from pv obtain v where v: "fst (print_value m r) = [Value_line v]"
    by (auto simp: print_value_def split: sum.splits)
  from po obtain ov where ov: "fst ?O = [Blank, Objective_line ov]"
    by (auto split: sum.splits)
  show "snd (print_duals m r (facilities m)) = None" by (rule pd)
  have "fst (post_processing m r) =
           [Value_line v, Blank]
           @ fst (print_transport m r (List.product (facilities m) (warehouses m)))
           @ [Blank] @ fst (print_duals m r (facilities m)) @ [Blank, Objective_line ov]"
    unfolding post_processing_def
    by (simp only: fst_then_do pv pt pd snd_then_do v ov fst_conv snd_conv simp_thms
        append.simps append_assoc)
  then show "\<exists>v ov. fst (post_processing m r) =
           [Value_line v, Blank]
           @ fst (print_transport m r (List.product (facilities m) (warehouses m)))
           @ [Blank] @ fst (print_duals m r (facilities m)) @ [Blank, Objective_line ov]"
    by blast
qed

subsection \<open>The hardcoded instance, evaluated\<close>

lemma hardcoded_builds: "\<exists>m. build_model capacities demands costs = Inr m"
  by (rule exI, rule build_model_Inr)
     (simp_all add: capacities_def demands_def costs_def All_less_Suc)

lemma hardcoded_satisfies_iff:
  assumes "build_model capacities demands costs = Inr m"
  shows "satisfies m x =
    (0 \<le> x (0, 0) \<and> 0 \<le> x (0, 1) \<and> 0 \<le> x (1, 0) \<and> 0 \<le> x (1, 1) \<and> 0 \<le> x (2, 0) \<and>
     0 \<le> x (2, 1) \<and>
     x (0, 0) + x (0, 1) \<le> 2 \<and> x (1, 0) + x (1, 1) \<le> 3 \<and> x (2, 0) + x (2, 1) \<le> 3 \<and>
     4 \<le> x (0, 0) + x (1, 0) + x (2, 0) \<and> 4 \<le> x (0, 1) + x (1, 1) + x (2, 1))"
  unfolding satisfies_iff [OF assms]
  by (simp add: capacities_def demands_def All_less_Suc numeral_2_eq_2) linarith

lemma hardcoded_objective:
  assumes "build_model capacities demands costs = Inr m"
  shows "objective m x =
     x (0, 0) + 2 * x (0, 1) + 2 * x (1, 0) + 2 * x (1, 1) + 2 * x (2, 0) + 3 * x (2, 1)"
  unfolding objective_def build_model_fields(6) [OF assms]
  by (simp add: eval_objective) (simp add: capacities_def demands_def costs_def numeral_2_eq_2)


lemma hardcoded_spec_flow:
  "build_model capacities demands costs = Inr m \<Longrightarrow> satisfies m spec_flow"
  by (simp add: hardcoded_satisfies_iff spec_flow_def)

lemma hardcoded_lengths: "0 < length capacities" "1 < length demands"
  by (simp_all add: capacities_def demands_def)

lemma hardcoded_product:
  "length dems = 2 \<Longrightarrow>
     List.product [0..<length capacities] [0..<length dems] =
       [(0, 0), (0, 1), (1, 0), (1, 1), (2, 0), (2, 1)]"
  by (simp add: capacities_def numeral_2_eq_2)

lemma hardcoded_spec_objective:
  "length dems = 2 \<Longrightarrow>
     spec_objective costs (length capacities) (length dems) x =
       x (0, 0) + 2 * x (0, 1) + 2 * x (1, 0) + 2 * x (1, 1) + 2 * x (2, 0) + 3 * x (2, 1)"
  by (simp add: spec_objective_def capacities_def costs_def numeral_2_eq_2)

lemma hardcoded_duals:
  assumes "build_model capacities dems costs = Inr m"
    and "dual r = dual optimal_results"
  shows "print_duals m r [0..<length capacities] =
     ([Dual_line (CapacityCons_at 0) (- 1), Dual_line (CapacityCons_at 1) (- 1),
       Dual_line (CapacityCons_at 2) 0], None)"
  by (simp add: build_model_fields(4) [OF assms(1)] assms(2) capacities_def component_get_def
      optimal_results_def)

lemma hardcoded_post_processing:
  assumes "build_model capacities dems costs = Inr m" and "length dems = 2"
    and "X_value r = X_value optimal_results" and "dual r = dual optimal_results"
  shows "post_processing m r =
     ([Value_line (Some 0), Blank, Transport_line 2 0 0, Transport_line 3 1 1,
       Transport_line 2 2 0, Transport_line 1 2 1, Blank,
       Dual_line (CapacityCons_at 0) (- 1), Dual_line (CapacityCons_at 1) (- 1),
       Dual_line (CapacityCons_at 2) 0, Blank, Objective_line 15], None)"
proof -
  from assms(3) have v: "\<forall>i\<in>set (X m). X_value r i = Some (spec_flow i)"
    by (simp add: optimal_results_def)
  from assms(2) have l: "1 < length dems" by simp
  show ?thesis
    unfolding post_processing_loaded [OF assms(1) hardcoded_lengths(1) l v]
      hardcoded_duals [OF assms(1,4)] hardcoded_product [OF assms(2)]
      hardcoded_spec_objective [OF assms(2)]
    by (simp add: spec_flow_def percent_d_def)
qed

lemma two_demands: "length demands = 2"
  by (simp add: demands_def)

lemma exact_run:
  "script exact_solver capacities demands costs =
     \<lparr>stdout = [Blank, Status_line status_ok, Termination_line optimal,
        Value_line (Some 0), Blank, Transport_line 2 0 0, Transport_line 3 1 1,
        Transport_line 2 2 0, Transport_line 1 2 1, Blank,
        Dual_line (CapacityCons_at 0) (- 1), Dual_line (CapacityCons_at 1) (- 1),
        Dual_line (CapacityCons_at 2) 0, Blank, Objective_line 15],
      solver_calls = 1, raised = None\<rparr>"
proof -
  from hardcoded_builds obtain m where m: "build_model capacities demands costs = Inr m" ..
  have s: "exact_solver m = Inr optimal_results" by (simp add: exact_solver_def)
  show ?thesis
    unfolding script_solved [where solve = exact_solver, OF m s]
      hardcoded_post_processing [OF m two_demands refl refl]
    by (simp add: optimal_results_def)
qed




lemma long_costs_builds:
  "build_model capacities demands (costs @ [[5, 5]]) = build_model capacities demands costs"
proof -
  have 1: "\<forall>f<length capacities. \<forall>w<length demands.
      f < length (costs @ [[5, 5]]) \<and> w < length ((costs @ [[5, 5]]) ! f)"
    by (simp add: capacities_def demands_def costs_def All_less_Suc)
  have 2: "\<forall>f<length capacities. \<forall>w<length demands.
      f < length costs \<and> w < length (costs ! f)"
    by (simp add: capacities_def demands_def costs_def All_less_Suc)
  have 3: "(capacities = []) = (demands = [])"
    by (simp add: capacities_def demands_def)
  show ?thesis
    unfolding build_model_Inr [OF 1 3] build_model_Inr [OF 2 3] hardcoded_product [OF two_demands]
    by (simp add: costs_def)
qed

lemma no_warehouse_run:
  "script exact_solver capacities [] costs =
     \<lparr>stdout = [], solver_calls = 0, raised = Some ValueError\<rparr>"
proof -
  have "build_model capacities [] costs = Inl ValueError"
    by (rule build_model_ValueError) (simp add: capacities_def)
  then show ?thesis by (simp add: script_def)
qed

lemma short_costs_run:
  "script exact_solver capacities demands [[1, 2], [2, 2]] =
     \<lparr>stdout = [], solver_calls = 0, raised = Some IndexError\<rparr>"
proof -
  have "\<not> (\<forall>f<length capacities. \<forall>w<length demands.
      f < length [[1, 2], [2, 2::real]] \<and> w < length ([[1, 2], [2, 2::real]] ! f))"
    by (simp add: capacities_def demands_def All_less_Suc)
  then have "build_model capacities demands [[1, 2], [2, 2]] = Inl IndexError"
    by (rule build_model_Inl)
  then show ?thesis by (simp add: script_def)
qed

section \<open>The claims\<close>

subsection \<open>The optimum of the hardcoded instance\<close>

text \<open>
  C1 (as amended). For the hardcoded instance (capacities 2, 3, 3; demands 4, 4; costs
  1 2 / 2 2 / 2 3) the script builds a model; the flow \<open>X[0,0] = 2\<close>, \<open>X[1,1] = 3\<close>,
  \<open>X[2,0] = 2\<close>, \<open>X[2,1] = 1\<close> satisfies it and costs 15; and no point that satisfies the
  model costs less than 15. The optimal objective value is 15, not 9.
\<close>

theorem hardcoded_optimum_is_15:
  assumes "build_model capacities demands costs = Inr m"
  shows "satisfies m spec_flow \<and> objective m spec_flow = 15 \<and>
         (\<forall>x. satisfies m x \<longrightarrow> 15 \<le> objective m x)"
proof (intro conjI allI impI)
  show "satisfies m spec_flow"
    by (simp add: hardcoded_satisfies_iff [OF assms] spec_flow_def)
  show "objective m spec_flow = 15"
    by (simp add: hardcoded_objective [OF assms] spec_flow_def)
  fix x
  assume "satisfies m x"
  then show "15 \<le> objective m x"
    unfolding hardcoded_satisfies_iff [OF assms] hardcoded_objective [OF assms]
    by linarith
qed

theorem hardcoded_optimum_is_15_witness:
  "\<exists>m. build_model capacities demands costs = Inr m \<and> satisfies m other_flow \<and>
       objective m other_flow = 17 \<and> 15 \<le> objective m other_flow"
proof -
  from hardcoded_builds obtain m where m: "build_model capacities demands costs = Inr m" ..
  have s: "satisfies m other_flow"
    by (simp add: hardcoded_satisfies_iff [OF m] other_flow_def)
  have "objective m other_flow = 17"
    by (simp add: hardcoded_objective [OF m] other_flow_def)
  with m s hardcoded_optimum_is_15 [OF m] show ?thesis by blast
qed

text \<open>
  C1 as stated fails: the flow it names is a point of the model, and the objective
  there is 15, which is not 9.
\<close>

theorem spec_flow_costs_15_not_9:
  "\<not> isl (build_model capacities demands costs) \<and>
   satisfies (projr (build_model capacities demands costs)) spec_flow \<and>
   objective (projr (build_model capacities demands costs)) spec_flow = 15 \<and>
   objective (projr (build_model capacities demands costs)) spec_flow \<noteq> 9"
proof -
  from hardcoded_builds obtain m where m: "build_model capacities demands costs = Inr m" ..
  have "satisfies m spec_flow"
    by (simp add: hardcoded_satisfies_iff [OF m] spec_flow_def)
  moreover have "objective m spec_flow = 15"
    by (simp add: hardcoded_objective [OF m] spec_flow_def)
  ultimately show ?thesis by (simp add: m)
qed

subsection \<open>The constraints\<close>

text \<open>
  C2. When the model is built and \<open>f\<close> is a facility, \<open>CapacityCons[f]\<close> is the
  inequality whose left side is Python's sum of the variables \<open>X[f,w]\<close> over all
  warehouses and whose right side is \<open>capacities[f]\<close>; it holds at a point exactly when
  the sum over \<open>w\<close> of \<open>x (f, w)\<close> is at most \<open>capacities[f]\<close>; so every point that
  satisfies the built model has that sum at most \<open>capacities[f]\<close>.
\<close>

theorem capacity_constraint_built:
  assumes "build_model caps dems cs = Inr m" and "f < length caps"
  shows "component_get (CapacityCons m) f =
           Inr (LessEq (py_sum (map (VarX f) [0..<length dems])) (Num (caps ! f))) \<and>
         holds x (LessEq (py_sum (map (VarX f) [0..<length dems])) (Num (caps ! f))) =
           ((\<Sum>w<length dems. x (f, w)) \<le> caps ! f) \<and>
         (satisfies m x \<longrightarrow> (\<Sum>w<length dems. x (f, w)) \<le> caps ! f)"
proof (intro conjI impI)
  from assms(2) show "component_get (CapacityCons m) f =
      Inr (LessEq (py_sum (map (VarX f) [0..<length dems])) (Num (caps ! f)))"
    unfolding build_model_fields [OF assms(1)] by (simp add: component_get_graph)
  show "holds x (LessEq (py_sum (map (VarX f) [0..<length dems])) (Num (caps ! f))) =
      ((\<Sum>w<length dems. x (f, w)) \<le> caps ! f)"
    by (rule holds_capacity)
  assume "satisfies m x"
  with assms show "(\<Sum>w<length dems. x (f, w)) \<le> caps ! f"
    by (simp add: satisfies_iff)
qed

theorem capacity_constraint_built_witness:
  "\<exists>m. build_model capacities demands costs = Inr m \<and> satisfies m spec_flow \<and>
       component_get (CapacityCons m) 1 =
         Inr (LessEq (py_sum (map (VarX 1) [0..<length demands])) (Num (capacities ! 1))) \<and>
       (\<Sum>w<length demands. spec_flow (1, w)) \<le> capacities ! 1"
proof -
  from hardcoded_builds obtain m where m: "build_model capacities demands costs = Inr m" ..
  have f: "1 < length capacities" by (simp add: capacities_def)
  from capacity_constraint_built [OF m f, of spec_flow] hardcoded_spec_flow [OF m] m
  show ?thesis by blast
qed

text \<open>
  C3. When the model is built and \<open>w\<close> is a warehouse, \<open>DemandCons[w]\<close> is the
  inequality whose left side is Python's sum of the variables \<open>X[f,w]\<close> over all
  facilities and whose right side is \<open>demands[w]\<close>; it holds at a point exactly when the
  sum over \<open>f\<close> of \<open>x (f, w)\<close> is at least \<open>demands[w]\<close>; so every point that satisfies
  the built model has that sum at least \<open>demands[w]\<close>.
\<close>

theorem demand_constraint_built:
  assumes "build_model caps dems cs = Inr m" and "w < length dems"
  shows "component_get (DemandCons m) w =
           Inr (GreaterEq (py_sum (map (\<lambda>f. VarX f w) [0..<length caps])) (Num (dems ! w))) \<and>
         holds x (GreaterEq (py_sum (map (\<lambda>f. VarX f w) [0..<length caps])) (Num (dems ! w))) =
           ((\<Sum>f<length caps. x (f, w)) \<ge> dems ! w) \<and>
         (satisfies m x \<longrightarrow> (\<Sum>f<length caps. x (f, w)) \<ge> dems ! w)"
proof (intro conjI impI)
  from assms(2) show "component_get (DemandCons m) w =
      Inr (GreaterEq (py_sum (map (\<lambda>f. VarX f w) [0..<length caps])) (Num (dems ! w)))"
    unfolding build_model_fields [OF assms(1)] by (simp add: component_get_graph)
  show "holds x (GreaterEq (py_sum (map (\<lambda>f. VarX f w) [0..<length caps])) (Num (dems ! w))) =
      ((\<Sum>f<length caps. x (f, w)) \<ge> dems ! w)"
    by (rule holds_demand)
  assume "satisfies m x"
  with assms show "(\<Sum>f<length caps. x (f, w)) \<ge> dems ! w"
    by (simp add: satisfies_iff)
qed

theorem demand_constraint_built_witness:
  "\<exists>m. build_model capacities demands costs = Inr m \<and> satisfies m spec_flow \<and>
       component_get (DemandCons m) 1 =
         Inr (GreaterEq (py_sum (map (\<lambda>f. VarX f 1) [0..<length capacities]))
                (Num (demands ! 1))) \<and>
       (\<Sum>f<length capacities. spec_flow (f, 1)) \<ge> demands ! 1"
proof -
  from hardcoded_builds obtain m where m: "build_model capacities demands costs = Inr m" ..
  have w: "1 < length demands" by (simp add: demands_def)
  from demand_constraint_built [OF m w, of spec_flow] hardcoded_spec_flow [OF m] m
  show ?thesis by blast
qed




text \<open>
  C10. For the hardcoded instance the capacities and the demands both sum to 8; at
  every point that satisfies the built model the total shipped is exactly 8, every
  capacity constraint holds with equality and every demand constraint holds with
  equality.
\<close>

theorem hardcoded_constraints_tight:
  assumes "build_model capacities demands costs = Inr m" and "satisfies m x"
  shows "sum_list capacities = 8 \<and> sum_list demands = 8 \<and>
         (\<Sum>f<nF. \<Sum>w<nW. x (f, w)) = 8 \<and>
         (\<forall>f<nF. (\<Sum>w<nW. x (f, w)) = capacities ! f) \<and>
         (\<forall>w<nW. (\<Sum>f<nF. x (f, w)) = demands ! w)"
proof -
  from assms(2) have
    "x (0, 0) + x (0, 1) \<le> 2" "x (1, 0) + x (1, 1) \<le> 3" "x (2, 0) + x (2, 1) \<le> 3"
    "4 \<le> x (0, 0) + x (1, 0) + x (2, 0)" "4 \<le> x (0, 1) + x (1, 1) + x (2, 1)"
    unfolding hardcoded_satisfies_iff [OF assms(1)] by simp_all
  then have "x (0, 0) + x (0, 1) = 2" "x (1, 0) + x (1, 1) = 3" "x (2, 0) + x (2, 1) = 3"
    "x (0, 0) + x (1, 0) + x (2, 0) = 4" "x (0, 1) + x (1, 1) + x (2, 1) = 4"
    by linarith+
  then show ?thesis
    by (simp add: nF_def nW_def capacities_def demands_def All_less_Suc numeral_2_eq_2)
qed

theorem hardcoded_constraints_tight_witness:
  "\<exists>m. build_model capacities demands costs = Inr m \<and> satisfies m other_flow \<and>
       (\<Sum>f<nF. \<Sum>w<nW. other_flow (f, w)) = 8 \<and>
       (\<Sum>w<nW. other_flow (1, w)) = capacities ! 1 \<and>
       (\<Sum>f<nF. other_flow (f, 0)) = demands ! 0"
proof -
  from hardcoded_builds obtain m where m: "build_model capacities demands costs = Inr m" ..
  have s: "satisfies m other_flow"
    by (simp add: hardcoded_satisfies_iff [OF m] other_flow_def)
  have "(1::nat) < nF" "(0::nat) < nW"
    by (simp_all add: nF_def nW_def capacities_def demands_def)
  with m s hardcoded_constraints_tight [OF m s] show ?thesis by blast
qed

subsection \<open>The objective\<close>

text \<open>
  C4. When the model is built, its objective is a minimisation whose expression has, at
  every point \<open>x\<close>, the value of the sum over all \<open>f\<close> and \<open>w\<close> of
  \<open>costs[f][w] * x (f, w)\<close>; when every variable holds the value \<open>x\<close> gives it,
  \<^verbatim>\<open>model.OBJ()\<close> returns the cost recomputed from the cost matrix and the values
  alone; and a run of the script that reaches its end prints that number last.
\<close>

theorem objective_is_the_cost:
  assumes "build_model caps dems cs = Inr m"
    and "\<forall>i\<in>set (X m). X_value r i = Some (x i)"
  shows "(\<exists>e. OBJ m = Some (e, minimize) \<and>
              eval x e = (\<Sum>f<length caps. \<Sum>w<length dems. cs ! f ! w * x (f, w))) \<and>
         OBJ_call m r = Inr (spec_objective cs (length caps) (length dems) x) \<and>
         (solve m = Inr r \<and> raised (script solve caps dems cs) = None \<longrightarrow>
            last (stdout (script solve caps dems cs)) =
              Objective_line (spec_objective cs (length caps) (length dems) x))"
proof (intro conjI impI)
  show "\<exists>e. OBJ m = Some (e, minimize) \<and>
          eval x e = (\<Sum>f<length caps. \<Sum>w<length dems. cs ! f ! w * x (f, w))"
    by (simp add: build_model_fields(6) [OF assms(1)] eval_objective)
  show call: "OBJ_call m r = Inr (spec_objective cs (length caps) (length dems) x)"
    by (rule OBJ_call_value [OF assms])
  assume *: "solve m = Inr r \<and> raised (script solve caps dems cs) = None"
  then have s: "solve m = Inr r" ..
  from * have n: "snd (post_processing m r) = None"
    by (simp add: script_solved [where solve = solve, OF assms(1) s])
  from n show "last (stdout (script solve caps dems cs)) =
      Objective_line (spec_objective cs (length caps) (length dems) x)"
    unfolding script_solved [where solve = solve, OF assms(1) s]
    by (simp add: post_processing_def call snd_then_do fst_then_do)
qed

theorem objective_is_the_cost_witness:
  "\<exists>m. build_model capacities demands costs = Inr m \<and>
       OBJ_call m optimal_results = Inr 15 \<and>
       spec_objective costs (length capacities) (length demands) spec_flow = 15 \<and>
       last (stdout (script exact_solver capacities demands costs)) = Objective_line 15"
proof -
  from hardcoded_builds obtain m where m: "build_model capacities demands costs = Inr m" ..
  have v: "\<forall>i\<in>set (X m). X_value optimal_results i = Some (spec_flow i)"
    by (simp add: optimal_results_def)
  have s: "exact_solver m = Inr optimal_results \<and>
      raised (script exact_solver capacities demands costs) = None"
    by (simp add: exact_solver_def exact_run)
  have c: "spec_objective costs (length capacities) (length demands) spec_flow = 15"
    by (simp add: hardcoded_spec_objective [OF two_demands] spec_flow_def)
  from objective_is_the_cost [OF m v, where solve = exact_solver] s c m
  show ?thesis by auto
qed

subsection \<open>The shape of the cost matrix\<close>

text \<open>
  C5 (as amended). Before any solver call the script can fail in two ways, and there is
  no DimensionError. It fails with Python's IndexError, raised by \<^verbatim>\<open>costs[f][w]\<close>,
  exactly when the cost matrix is too small: some pair of a facility \<open>f\<close> and a
  warehouse \<open>w\<close> has no entry \<open>costs[f][w]\<close>. It fails with ValueError, raised by
  \<^verbatim>\<open>pe.Constraint\<close>, exactly when one of the lists of capacities and demands is
  empty and the other is not, whatever the cost matrix. In every other case the model
  is built and the solver is called once: surplus rows and surplus columns of the cost
  matrix are not checked.
\<close>

theorem short_cost_matrix_raises_IndexError:
  "((\<exists>f<length caps. \<exists>w<length dems. length cs \<le> f \<or> length (cs ! f) \<le> w) \<longrightarrow>
      script solve caps dems cs = \<lparr>stdout = [], solver_calls = 0, raised = Some IndexError\<rparr>) \<and>
   ((caps = []) \<noteq> (dems = []) \<longrightarrow>
      script solve caps dems cs = \<lparr>stdout = [], solver_calls = 0, raised = Some ValueError\<rparr>) \<and>
   (\<not> (\<exists>f<length caps. \<exists>w<length dems. length cs \<le> f \<or> length (cs ! f) \<le> w) \<and>
    (caps = []) = (dems = []) \<longrightarrow>
      (\<exists>m. build_model caps dems cs = Inr m) \<and>
      solver_calls (script solve caps dems cs) = 1)"
proof (intro conjI impI)
  assume "\<exists>f<length caps. \<exists>w<length dems. length cs \<le> f \<or> length (cs ! f) \<le> w"
  then have "\<not> (\<forall>f<length caps. \<forall>w<length dems. f < length cs \<and> w < length (cs ! f))"
    by (auto simp: not_less)
  then have "build_model caps dems cs = Inl IndexError" by (rule build_model_Inl)
  then show "script solve caps dems cs =
      \<lparr>stdout = [], solver_calls = 0, raised = Some IndexError\<rparr>"
    by (simp add: script_def)
next
  assume "(caps = []) \<noteq> (dems = [])"
  then have "build_model caps dems cs = Inl ValueError" by (rule build_model_ValueError)
  then show "script solve caps dems cs =
      \<lparr>stdout = [], solver_calls = 0, raised = Some ValueError\<rparr>"
    by (simp add: script_def)
next
  assume *: "\<not> (\<exists>f<length caps. \<exists>w<length dems. length cs \<le> f \<or> length (cs ! f) \<le> w) \<and>
    (caps = []) = (dems = [])"
  then have "\<forall>f<length caps. \<forall>w<length dems. f < length cs \<and> w < length (cs ! f)"
    by (auto simp: not_le)
  moreover from * have "(caps = []) = (dems = [])" ..
  ultimately obtain m where m: "build_model caps dems cs = Inr m"
    using build_model_Inr by blast
  then show "\<exists>m. build_model caps dems cs = Inr m" ..
  from m show "solver_calls (script solve caps dems cs) = 1"
    by (simp add: script_def Let_def split: sum.splits)
qed

theorem short_cost_matrix_raises_IndexError_witness:
  "script exact_solver capacities demands [[1, 2], [2, 2]] =
     \<lparr>stdout = [], solver_calls = 0, raised = Some IndexError\<rparr> \<and>
   script exact_solver capacities [] costs =
     \<lparr>stdout = [], solver_calls = 0, raised = Some ValueError\<rparr> \<and>
   (\<exists>m. build_model capacities demands (costs @ [[5, 5]]) = Inr m) \<and>
   solver_calls (script exact_solver capacities demands (costs @ [[5, 5]])) = 1"
proof -
  have 1: "\<exists>f<length capacities. \<exists>w<length demands.
      length [[1, 2], [2, 2::real]] \<le> f \<or> length ([[1, 2], [2, 2::real]] ! f) \<le> w"
    by (rule exI [of _ 2]) (auto simp: capacities_def demands_def)
  have 2: "\<not> (\<exists>f<length capacities. \<exists>w<length demands.
      length (costs @ [[5, 5]]) \<le> f \<or> length ((costs @ [[5, 5]]) ! f) \<le> w) \<and>
      (capacities = []) = (demands = [])"
    by (simp add: capacities_def demands_def costs_def All_less_Suc)
  have 3: "(capacities = []) \<noteq> (([]::real list) = [])"
    by (simp add: capacities_def)
  from short_cost_matrix_raises_IndexError [of capacities demands "[[1, 2], [2, 2]]" exact_solver]
    short_cost_matrix_raises_IndexError [of capacities "[]" costs exact_solver]
    short_cost_matrix_raises_IndexError [of capacities demands "costs @ [[5, 5]]" exact_solver]
    1 2 3
  show ?thesis by blast
qed

text \<open>
  C5 as stated fails: a cost matrix of four rows for three facilities does not match,
  and the script runs as it does for the three-row matrix, calling the solver and
  raising nothing.
\<close>

theorem surplus_cost_row_is_accepted:
  "length (costs @ [[5, 5]]) \<noteq> length capacities \<and>
   script exact_solver capacities demands (costs @ [[5, 5]]) =
     script exact_solver capacities demands costs \<and>
   raised (script exact_solver capacities demands (costs @ [[5, 5]])) = None \<and>
   solver_calls (script exact_solver capacities demands (costs @ [[5, 5]])) = 1"
proof -
  have "script exact_solver capacities demands (costs @ [[5, 5]]) =
      script exact_solver capacities demands costs"
    by (simp only: script_def long_costs_builds)
  then show ?thesis
    by (simp add: exact_run) (simp add: costs_def capacities_def)
qed

subsection \<open>The solver's status\<close>




subsection \<open>The printed duals\<close>

text \<open>
  C8 (as amended). In a run of the script that reaches its end, the dual-price lines
  printed are exactly those of the capacity constraints: a line for a constraint and a
  price is printed if and only if the constraint is \<open>CapacityCons[f]\<close> for a facility
  \<open>f\<close> and the price is its value in \<^verbatim>\<open>model.dual\<close>. No dual of a demand
  constraint is printed.
\<close>

theorem dual_lines_are_capacity_duals:
  assumes "build_model caps dems cs = Inr m" and "solve m = Inr r"
    and "raised (script solve caps dems cs) = None"
  shows "(Dual_line c d \<in> set (stdout (script solve caps dems cs)) \<longleftrightarrow>
            (\<exists>f<length caps. c = CapacityCons_at f \<and> map_of (dual r) c = Some d)) \<and>
         Dual_line (DemandCons_at w) d \<notin> set (stdout (script solve caps dems cs))"
proof -
  note run = script_solved [where solve = solve, OF assms(1,2)]
  from assms(3) have fin: "snd (post_processing m r) = None"
    by (simp add: run)
  from post_processing_complete [OF fin] obtain v ov where
    out: "fst (post_processing m r) =
           [Value_line v, Blank]
           @ fst (print_transport m r (List.product (facilities m) (warehouses m)))
           @ [Blank] @ fst (print_duals m r (facilities m)) @ [Blank, Objective_line ov]"
    and pd: "snd (print_duals m r (facilities m)) = None"
    by blast
  have fac: "facilities m = [0..<length caps]"
    by (rule build_model_fields(1) [OF assms(1)])
  have mem: "Dual_line c' d' \<in> set (stdout (script solve caps dems cs)) \<longleftrightarrow>
      Dual_line c' d' \<in> set (fst (print_duals m r (facilities m)))" for c' d'
    unfolding run by (auto simp: out dest: print_transport_lines)
  have iff: "Dual_line c' d' \<in> set (stdout (script solve caps dems cs)) \<longleftrightarrow>
      (\<exists>f<length caps. c' = CapacityCons_at f \<and> map_of (dual r) c' = Some d')" for c' d'
  proof
    assume "Dual_line c' d' \<in> set (stdout (script solve caps dems cs))"
    then have "Dual_line c' d' \<in> set (fst (print_duals m r (facilities m)))"
      by (simp add: mem)
    from print_duals_lines [OF this] show
      "\<exists>f<length caps. c' = CapacityCons_at f \<and> map_of (dual r) c' = Some d'"
      by (auto simp: fac)
  next
    assume "\<exists>f<length caps. c' = CapacityCons_at f \<and> map_of (dual r) c' = Some d'"
    then obtain f where f: "f \<in> set (facilities m)" "c' = CapacityCons_at f"
      "map_of (dual r) c' = Some d'"
      by (auto simp: fac)
    from print_duals_done [OF pd f(1)] f(2,3)
    have "Dual_line c' d' \<in> set (fst (print_duals m r (facilities m)))" by auto
    then show "Dual_line c' d' \<in> set (stdout (script solve caps dems cs))"
      by (simp add: mem)
  qed
  from iff [of "DemandCons_at w" d]
  have "Dual_line (DemandCons_at w) d \<notin> set (stdout (script solve caps dems cs))" by simp
  with iff [of c d] show ?thesis by simp
qed

theorem dual_lines_are_capacity_duals_witness:
  "\<exists>m. build_model capacities demands costs = Inr m \<and>
       raised (script exact_solver capacities demands costs) = None \<and>
       Dual_line (CapacityCons_at 1) (- 1) \<in>
         set (stdout (script exact_solver capacities demands costs)) \<and>
       Dual_line (DemandCons_at 1) 3 \<notin>
         set (stdout (script exact_solver capacities demands costs))"
proof -
  from hardcoded_builds obtain m where m: "build_model capacities demands costs = Inr m" ..
  have s: "exact_solver m = Inr optimal_results" by (simp add: exact_solver_def)
  have n: "raised (script exact_solver capacities demands costs) = None"
    by (simp add: exact_run)
  have f: "\<exists>f<length capacities. CapacityCons_at 1 = CapacityCons_at f \<and>
      map_of (dual optimal_results) (CapacityCons_at 1) = Some (- 1)"
    by (rule exI [of _ 1]) (simp add: capacities_def optimal_results_def)
  from dual_lines_are_capacity_duals [where solve = exact_solver, OF m s n,
      of "CapacityCons_at 1" "- 1" 1]
    dual_lines_are_capacity_duals [where solve = exact_solver, OF m s n,
      of "CapacityCons_at 1" 3 1] f m n
  show ?thesis by blast
qed

text \<open>
  C8 as stated fails: on the hardcoded instance with an exact solver, the run reaches
  its end, the dual of \<open>DemandCons[0]\<close> is 2 in \<^verbatim>\<open>model.dual\<close>, and the output
  (shown whole) has no line for it.
\<close>

theorem demand_duals_are_not_printed:
  "script exact_solver capacities demands costs =
     \<lparr>stdout = [Blank, Status_line status_ok, Termination_line optimal,
        Value_line (Some 0), Blank, Transport_line 2 0 0, Transport_line 3 1 1,
        Transport_line 2 2 0, Transport_line 1 2 1, Blank,
        Dual_line (CapacityCons_at 0) (- 1), Dual_line (CapacityCons_at 1) (- 1),
        Dual_line (CapacityCons_at 2) 0, Blank, Objective_line 15],
      solver_calls = 1, raised = None\<rparr> \<and>
   map_of (dual optimal_results) (DemandCons_at 0) = Some 2 \<and>
   Dual_line (DemandCons_at 0) 2 \<notin> set (stdout (script exact_solver capacities demands costs))"
  by (simp add: exact_run) (simp add: optimal_results_def)

subsection \<open>The printed shipments\<close>

text \<open>
  C9. The shipped quantities are printed by the loop at lines 129 to 132. When the
  model is built and every variable holds a solved value, the loop prints a line
  \<open>Transport q units from facility f to warehouse w\<close> if and only if \<open>(f, w)\<close> is a
  pair of the model and the value of \<open>X[f,w]\<close> is not zero, \<open>q\<close> being that value
  formatted by \<open>%d\<close>; pairs whose value is zero produce no line, and the loop raises
  nothing. In a run of the script that reaches the loop (the solver returned, and
  line 126 found \<open>X[0,1]\<close>, which takes a facility and two warehouses), the
  shipped-quantity lines of the whole output are exactly these.
\<close>

theorem transport_lines_are_nonzero_flows:
  assumes "build_model caps dems cs = Inr m"
    and "\<forall>i\<in>set (X m). X_value r i = Some (x i)"
  shows "(Transport_line q f w \<in>
            set (fst (print_transport m r (List.product (facilities m) (warehouses m)))) \<longleftrightarrow>
            f < length caps \<and> w < length dems \<and> x (f, w) \<noteq> 0 \<and> q = percent_d (x (f, w))) \<and>
         snd (print_transport m r (List.product (facilities m) (warehouses m))) = None \<and>
         (solve m = Inr r \<and> 0 < length caps \<and> 1 < length dems \<longrightarrow>
            (Transport_line q f w \<in> set (stdout (script solve caps dems cs)) \<longleftrightarrow>
               f < length caps \<and> w < length dems \<and> x (f, w) \<noteq> 0 \<and>
               q = percent_d (x (f, w))))"
proof (intro conjI impI)
  note f = build_model_fields [OF assms(1)]
  let ?idx = "List.product [0..<length caps] [0..<length dems]"
  have pt: "print_transport m r ?idx =
      (map (\<lambda>i. Transport_line (percent_d (x i)) (fst i) (snd i))
         (filter (\<lambda>i. x i \<noteq> 0) ?idx), None)"
    by (rule print_transport_loaded) (use assms(2) in \<open>simp_all add: f\<close>)
  have img: "Transport_line q f w \<in> (\<lambda>i. Transport_line (percent_d (x i)) (fst i) (snd i)) `
         {i \<in> set ?idx. x i \<noteq> 0} \<longleftrightarrow>
      f < length caps \<and> w < length dems \<and> x (f, w) \<noteq> 0 \<and> q = percent_d (x (f, w))"
    by auto
  show "Transport_line q f w \<in>
      set (fst (print_transport m r (List.product (facilities m) (warehouses m)))) \<longleftrightarrow>
      f < length caps \<and> w < length dems \<and> x (f, w) \<noteq> 0 \<and> q = percent_d (x (f, w))"
    unfolding f(1,2) pt using img by simp
  show "snd (print_transport m r (List.product (facilities m) (warehouses m))) = None"
    unfolding f(1,2) pt by simp
  assume *: "solve m = Inr r \<and> 0 < length caps \<and> 1 < length dems"
  then have s: "solve m = Inr r" and l: "0 < length caps" "1 < length dems" by simp_all
  note run = script_solved [where solve = solve, OF assms(1) s]
  note pp = post_processing_loaded [OF assms(1) l assms(2)]
  let ?D = "then_do (print_duals m r [0..<length caps])
         ([Blank, Objective_line (spec_objective cs (length caps) (length dems) x)], None)"
  have "set (fst ?D) \<subseteq> set (fst (print_duals m r [0..<length caps]))
          \<union> {Blank, Objective_line (spec_objective cs (length caps) (length dems) x)}"
    using set_then_do [of "print_duals m r [0..<length caps]"
        "([Blank, Objective_line (spec_objective cs (length caps) (length dems) x)], None)"]
    by auto
  then have rest: "Transport_line q f w \<notin> set (fst ?D)"
    by (auto dest: print_duals_lines)
  have "Transport_line q f w \<in> set (stdout (script solve caps dems cs)) \<longleftrightarrow>
      Transport_line q f w \<in> (\<lambda>i. Transport_line (percent_d (x i)) (fst i) (snd i)) `
         {i \<in> set ?idx. x i \<noteq> 0}"
    unfolding run pp using rest by simp
  with img show "Transport_line q f w \<in> set (stdout (script solve caps dems cs)) \<longleftrightarrow>
      f < length caps \<and> w < length dems \<and> x (f, w) \<noteq> 0 \<and> q = percent_d (x (f, w))"
    by simp
qed

theorem transport_lines_are_nonzero_flows_witness:
  "\<exists>m. build_model capacities demands costs = Inr m \<and>
       Transport_line 2 0 0 \<in> set (stdout (script exact_solver capacities demands costs)) \<and>
       Transport_line 0 0 1 \<notin> set (stdout (script exact_solver capacities demands costs)) \<and>
       Transport_line 0 0 1 \<notin>
         set (fst (print_transport m optimal_results
                (List.product (facilities m) (warehouses m))))"
proof -
  from hardcoded_builds obtain m where m: "build_model capacities demands costs = Inr m" ..
  have s: "exact_solver m = Inr optimal_results \<and> 0 < length capacities \<and> 1 < length demands"
    by (simp add: exact_solver_def capacities_def demands_def)
  have v: "\<forall>i\<in>set (X m). X_value optimal_results i = Some (spec_flow i)"
    by (simp add: optimal_results_def)
  have a: "0 < length capacities \<and> 0 < length demands \<and> spec_flow (0, 0) \<noteq> 0 \<and>
      2 = percent_d (spec_flow (0, 0))"
    by (simp add: capacities_def demands_def spec_flow_def percent_d_def)
  have b: "spec_flow (0, 1) = 0" by (simp add: spec_flow_def)
  from transport_lines_are_nonzero_flows [where solve = exact_solver, OF m v, of 2 0 0]
    transport_lines_are_nonzero_flows [where solve = exact_solver, OF m v, of 0 0 1] s a b m
  show ?thesis by auto
qed

end
